theory Spec2Isabelle
  imports
    Main
    "HOL-Library.Char_ord"
    "HOL-Library.List_Lexorder"
    "HOL-Library.Product_Lexorder"
begin

section \<open>Python strings\<close>

text \<open>
  A Python \<open>str\<close> is a sequence of code points; \<^typ>\<open>string\<close> holds the code points
  below 256 (ASCII and Latin-1), one \<^typ>\<open>char\<close> each. Strings are compared as Python
  compares them: lexicographically by code point, a proper prefix first.
\<close>

text \<open>The code points below 256 for which \<open>str.isspace\<close> holds.\<close>

definition whitespace :: string where
  "whitespace = [CHR 0x09, CHR 0x0A, CHR 0x0B, CHR 0x0C, CHR 0x0D,
     CHR 0x1C, CHR 0x1D, CHR 0x1E, CHR 0x1F, CHR 0x20, CHR 0x85, CHR 0xA0]"

definition isspace :: "char \<Rightarrow> bool" where
  "isspace c = (c \<in> set whitespace)"

text \<open>
  The third argument of \<open>str.maketrans\<close> at line 45 of \<open>clean_data.py\<close>:
  the 32 characters \<open>!"#$%&'()*+,-./:;<=>?@[\]^_`{|}~\<close>, the hyphen among them.
\<close>

definition punctuation :: string where
  "punctuation = ''!'' @ [CHR 0x22] @ ''#$%&'' @ [CHR 0x27] @ ''()*+,-./:;<=>?@['' @
     [CHR 0x5C] @ '']^_'' @ [CHR 0x60] @ ''{|}~''"

text \<open>
  \<open>str.lower\<close> on one code point below 256: the letters A to Z and the Latin-1 capitals
  (0xC0 to 0xDE without the multiplication sign 0xD7) move up by 32.
\<close>

definition lower_char :: "char \<Rightarrow> char" where
  "lower_char c =
     (let n = (of_char c :: nat)
      in if (65 \<le> n \<and> n \<le> 90) \<or> (192 \<le> n \<and> n \<le> 222 \<and> n \<noteq> 215)
         then char_of (n + 32) else c)"

definition str_lower :: "string \<Rightarrow> string" where
  "str_lower s = map lower_char s"

text \<open>\<open>str.strip()\<close> without argument: whitespace goes from both ends.\<close>

definition str_strip :: "string \<Rightarrow> string" where
  "str_strip s = rev (dropWhile isspace (rev (dropWhile isspace s)))"

text \<open>\<open>str.replace(old, new)\<close> for a pattern \<open>old\<close> of one character.\<close>

definition str_replace :: "char \<Rightarrow> string \<Rightarrow> string \<Rightarrow> string" where
  "str_replace old new s = concat (map (\<lambda>c. if c = old then new else [c]) s)"

text \<open>
  \<open>s.translate(str.maketrans("", "", deletechars))\<close>: the table maps every character
  of \<open>deletechars\<close> to \<open>None\<close>, so \<open>translate\<close> deletes these characters and keeps
  the others.
\<close>

definition str_translate :: "string \<Rightarrow> string \<Rightarrow> string" where
  "str_translate deletechars s = filter (\<lambda>c. c \<notin> set deletechars) s"

text \<open>
  \<open>str.split()\<close> without argument: skip whitespace, take the characters up to the next
  whitespace as one word, and go on behind it; no word is empty.
\<close>

function str_split :: "string \<Rightarrow> string list" where
  "str_split s =
     (case dropWhile isspace s of
        [] \<Rightarrow> []
      | c # cs \<Rightarrow>
          (c # takeWhile (\<lambda>x. \<not> isspace x) cs) #
            str_split (dropWhile (\<lambda>x. \<not> isspace x) cs))"
  by pat_completeness auto
termination
proof (relation "measure length")
  show "wf (measure (length :: string \<Rightarrow> nat))"
    by simp
next
  fix s :: string and c cs
  assume rest: "dropWhile isspace s = c # cs"
  have "length (dropWhile (\<lambda>x. \<not> isspace x) cs) \<le> length cs"
    by (rule length_dropWhile_le)
  also have "length cs < length (dropWhile isspace s)"
    by (simp add: rest)
  also have "length (dropWhile isspace s) \<le> length s"
    by (rule length_dropWhile_le)
  finally show "(dropWhile (\<lambda>x. \<not> isspace x) cs, s) \<in> measure length"
    by simp
qed

declare str_split.simps [simp del]

text \<open>\<open>sep.join(xs)\<close>.\<close>

fun str_join :: "string \<Rightarrow> string list \<Rightarrow> string" where
  "str_join sep [] = []"
| "str_join sep [x] = x"
| "str_join sep (x # y # ys) = x @ sep @ str_join sep (y # ys)"

section \<open>The stemmer\<close>

text \<open>
  \<open>nltk.PorterStemmer\<close> is a library, not code of this repository: \<open>stemmer.stem\<close> is a
  parameter of the model, a function from a word to its stem that may raise
  (\<open>Inl\<close> holds the exception). A list comprehension and \<open>Series.apply\<close> call their
  function on the elements in order; the first exception ends the whole computation.
\<close>

fun try_map :: "('a \<Rightarrow> 'e + 'b) \<Rightarrow> 'a list \<Rightarrow> 'e + 'b list" where
  "try_map f [] = Inr []"
| "try_map f (x # xs) =
     (case f x of
        Inl e \<Rightarrow> Inl e
      | Inr y \<Rightarrow> (case try_map f xs of Inl e \<Rightarrow> Inl e | Inr ys \<Rightarrow> Inr (y # ys)))"

section \<open>The data frame\<close>

text \<open>
  The rows of the frame, in row order. \<open>load_data\<close> gives rows with \<open>raw_text\<close>,
  \<open>create_normalized_key\<close> adds \<open>key\<close>, \<open>generate_cleaned_text\<close> adds
  \<open>cleaned_text\<close>, whose cells come from \<open>Series.map\<close> with a dictionary: a key the
  dictionary lacks gives a missing value (\<open>None\<close>).
\<close>

record input_row =
  raw_text :: string

record keyed_row = input_row +
  key :: string

record cleaned_row = keyed_row +
  cleaned_text :: "string option"

section \<open>create_normalized_key\<close>

text \<open>
  Lines 60 and 65 on one cell of the column: \<open>" ".join(sorted(set(x)))\<close>.
\<close>

definition build_key :: "string list \<Rightarrow> string" where
  "build_key x = str_join '' '' (sorted_list_of_set (set x))"

text \<open>
  The function works on the whole column, one step after the other (lines 26 to 65);
  the frame it returns is a copy of its argument with the column \<open>key\<close> added.
\<close>

definition create_normalized_key ::
  "(string \<Rightarrow> 'e + string) \<Rightarrow> input_row list \<Rightarrow> 'e + keyed_row list" where
  "create_normalized_key stem df =
     (let col = map raw_text df;
          col = map str_strip col;
          col = map str_lower col;
          col = map (str_replace (CHR ''-'') '''') col;
          col = map (str_translate punctuation) col;
          col = map str_split col
      in case try_map (\<lambda>x. try_map stem x) col of
           Inl e \<Rightarrow> Inl e
         | Inr col \<Rightarrow>
             (let col = map (\<lambda>x. sorted_list_of_set (set x)) col;
                  col = map (str_join '' '') col
              in Inr (map2 (\<lambda>r k. \<lparr>raw_text = raw_text r, key = k\<rparr>) df col)))"

section \<open>generate_cleaned_text\<close>

text \<open>\<open>sort_values(by=["key", "raw_text"], ascending=[True, True])\<close>.\<close>

definition sort_values :: "keyed_row list \<Rightarrow> keyed_row list" where
  "sort_values df = sort_key (\<lambda>r. (key r, raw_text r)) df"

text \<open>\<open>drop_duplicates(subset="key", keep="first")\<close>.\<close>

fun drop_duplicates :: "keyed_row list \<Rightarrow> keyed_row list" where
  "drop_duplicates [] = []"
| "drop_duplicates (r # rs) = r # drop_duplicates (filter (\<lambda>r'. key r' \<noteq> key r) rs)"

text \<open>\<open>dict(pairs)\<close>: of two pairs with one key, the later one stays.\<close>

definition dict :: "('k \<times> 'v) list \<Rightarrow> ('k \<rightharpoonup> 'v)" where
  "dict pairs = map_of (rev pairs)"

text \<open>
  Lines 72 to 85: the dictionary from a key to its representative. Line 81 calls
  \<open>drop_duplicates\<close> on \<open>df\<close>, so the sorted copy of line 76 is bound and not used.
\<close>

definition key_dict :: "keyed_row list \<Rightarrow> (string \<rightharpoonup> string)" where
  "key_dict df =
     (let keys = df;
          keys = sort_values keys;
          keys = drop_duplicates df
      in dict (zip (map key keys) (map raw_text keys)))"

text \<open>Line 89: \<open>df["cleaned_text"] = df["key"].map(key_dict)\<close>.\<close>

definition generate_cleaned_text :: "keyed_row list \<Rightarrow> cleaned_row list" where
  "generate_cleaned_text df =
     map (\<lambda>r. \<lparr>raw_text = raw_text r, key = key r, cleaned_text = key_dict df (key r)\<rparr>) df"

section \<open>save_data and main\<close>

text \<open>
  What \<open>to_csv\<close> and the column selection of \<open>save_data\<close> see of a frame: its
  named columns, in column order, each with its cells in row order.
\<close>

type_synonym frame = "(string \<times> string option list) list"

definition as_frame :: "cleaned_row list \<Rightarrow> frame" where
  "as_frame df =
     [(''raw_text'', map (\<lambda>r. Some (raw_text r)) df),
      (''key'', map (\<lambda>r. Some (key r)) df),
      (''cleaned_text'', map cleaned_text df)]"

text \<open>\<open>df[names]\<close>: the named columns in the order asked for; \<open>Inl n\<close> is the
  \<open>KeyError\<close> for a column \<open>n\<close> the frame lacks.\<close>

fun select_columns :: "string list \<Rightarrow> frame \<Rightarrow> string + frame" where
  "select_columns [] fr = Inr []"
| "select_columns (n # ns) fr =
     (case map_of fr n of
        None \<Rightarrow> Inl n
      | Some c \<Rightarrow>
          (case select_columns ns fr of Inl m \<Rightarrow> Inl m | Inr cs \<Rightarrow> Inr ((n, c) # cs)))"

text \<open>
  The file \<open>to_csv(path, index=False)\<close> writes: the column names as header, then one
  record per row of the frame, a missing value as the empty field.
\<close>

record csv =
  header :: "string list"
  records :: "string list list"

definition to_csv :: "frame \<Rightarrow> csv" where
  "to_csv fr =
     \<lparr>header = map fst fr,
      records =
        map (\<lambda>i. map (\<lambda>c. case snd c ! i of None \<Rightarrow> [] | Some s \<Rightarrow> s) fr)
          [0 ..< (case fr of [] \<Rightarrow> 0 | c # _ \<Rightarrow> length (snd c))]\<rparr>"

text \<open>
  The files written, by path. \<open>save_data\<close> writes the two selected columns to
  \<open>output_file\<close>.
\<close>

type_synonym files = "string \<rightharpoonup> csv"

definition save_data :: "cleaned_row list \<Rightarrow> string \<Rightarrow> files \<Rightarrow> string + files" where
  "save_data df output_file fs =
     (case select_columns [''raw_text'', ''cleaned_text''] (as_frame df) of
        Inl n \<Rightarrow> Inl n
      | Inr d \<Rightarrow> Inr (fs(output_file \<mapsto> to_csv d)))"

datatype 'e error = StemmerError 'e | KeyError string

text \<open>
  \<open>main\<close>, from the frame \<open>load_data\<close> returns on: the exception it ends with, if
  any, and the files as it leaves them. It writes the whole frame to
  \<open>files/test.csv\<close> and then calls \<open>save_data\<close>.
\<close>

definition main ::
  "(string \<Rightarrow> 'e + string) \<Rightarrow> input_row list \<Rightarrow> string \<Rightarrow> files \<Rightarrow> 'e error option \<times> files"
  where
  "main stem loaded output_file fs =
     (case create_normalized_key stem loaded of
        Inl e \<Rightarrow> (Some (StemmerError e), fs)
      | Inr df \<Rightarrow>
          (let df = generate_cleaned_text df;
               fs = fs(''files/test.csv'' \<mapsto> to_csv (as_frame df))
           in case save_data df output_file fs of
                Inl n \<Rightarrow> (Some (KeyError n), fs)
              | Inr fs \<Rightarrow> (None, fs)))"

section \<open>The normalizer as the specification words it\<close>

text \<open>
  Section 4.1 of the specification, step by step: trim, lowercase, delete the hyphens,
  delete the punctuation (the specification's list has no hyphen), split on whitespace
  runs and discard the empty tokens, stem each token.
\<close>

fun spec_trim_left :: "string \<Rightarrow> string" where
  "spec_trim_left [] = []"
| "spec_trim_left (c # cs) = (if isspace c then spec_trim_left cs else c # cs)"

definition spec_trim :: "string \<Rightarrow> string" where
  "spec_trim s = rev (spec_trim_left (rev (spec_trim_left s)))"

definition spec_delete_hyphens :: "string \<Rightarrow> string" where
  "spec_delete_hyphens s = filter (\<lambda>c. c \<noteq> CHR ''-'') s"

definition spec_punctuation :: string where
  "spec_punctuation = ''!'' @ [CHR 0x22] @ ''#$%&'' @ [CHR 0x27] @ ''()*+,./:;<=>?@['' @
     [CHR 0x5C] @ '']^_'' @ [CHR 0x60] @ ''{|}~''"

definition spec_delete_punctuation :: "string \<Rightarrow> string" where
  "spec_delete_punctuation s = filter (\<lambda>c. c \<notin> set spec_punctuation) s"

text \<open>The pieces between single whitespace characters; a run of whitespace gives
  empty pieces, which \<open>spec_split\<close> discards.\<close>

fun pieces :: "string \<Rightarrow> string list" where
  "pieces [] = [[]]"
| "pieces (c # cs) =
     (if isspace c then [] # pieces cs
      else (case pieces cs of [] \<Rightarrow> [[c]] | f # fs \<Rightarrow> (c # f) # fs))"

definition spec_split :: "string \<Rightarrow> string list" where
  "spec_split s = filter (\<lambda>t. t \<noteq> []) (pieces s)"

definition spec_normalize :: "(string \<Rightarrow> 'e + string) \<Rightarrow> string \<Rightarrow> 'e + string list" where
  "spec_normalize stem raw =
     try_map stem
       (spec_split (spec_delete_punctuation (spec_delete_hyphens (map lower_char (spec_trim raw)))))"

text \<open>
  Modelled from the spec: the stemmer (\<open>nltk.PorterStemmer\<close>, not under src/) on the
  words the specification's scenarios name: "running" and "runner" have the stem "run",
  "apple" has the stem "appl"; every other word is taken as its own stem. It raises on
  no word.
\<close>

definition scenario_stemmer :: "string \<Rightarrow> 'e + string" where
  "scenario_stemmer w =
     (if w = ''running'' \<or> w = ''runner'' then Inr ''run''
      else if w = ''apple'' then Inr ''appl''
      else Inr w)"

text \<open>A stemmer that raises on the word "bad" and is the identity elsewhere.\<close>

definition raising_stemmer :: "string \<Rightarrow> string + string" where
  "raising_stemmer w = (if w = ''bad'' then Inl ''cannot stem'' else Inr w)"

text \<open>The recovery the specification asks for: the unstemmed token where the stemmer
  raises.\<close>

definition with_fallback :: "(string \<Rightarrow> 'e + string) \<Rightarrow> string \<Rightarrow> 'e + string" where
  "with_fallback stem w = (case stem w of Inl e \<Rightarrow> Inr w | Inr s \<Rightarrow> Inr s)"

text \<open>The token sequence of one raw text, before stemming (lines 30 to 49 on one
  cell).\<close>

definition tokens :: "string \<Rightarrow> string list" where
  "tokens raw =
     str_split (str_translate punctuation (str_replace (CHR ''-'') [] (str_lower (str_strip raw))))"

text \<open>Lines 30 to 65 on one cell: the key of one raw text, or the stemmer's
  exception.\<close>

definition key_of :: "(string \<Rightarrow> 'e + string) \<Rightarrow> string \<Rightarrow> 'e + string" where
  "key_of stem raw =
     (case try_map stem (tokens raw) of Inl e \<Rightarrow> Inl e | Inr ts \<Rightarrow> Inr (build_key ts))"

text \<open>A token: not empty, and no space in it.\<close>

definition is_token :: "string \<Rightarrow> bool" where
  "is_token t = (t \<noteq> [] \<and> CHR '' '' \<notin> set t)"

section \<open>Running a function that may raise over a list\<close>

lemma try_map_Inr_D:
  "try_map f xs = Inr ys \<Longrightarrow> list_all2 (\<lambda>x y. f x = Inr y) xs ys"
  by (induction xs arbitrary: ys) (auto split: sum.splits)

lemma try_map_Inl_iff:
  "(\<exists>e. try_map f xs = Inl e) \<longleftrightarrow> (\<exists>x \<in> set xs. \<exists>e. f x = Inl e)"
  by (induction xs) (auto split: sum.splits)

lemma try_map_total:
  "(\<And>x. x \<in> set xs \<Longrightarrow> f x = Inr (g x)) \<Longrightarrow> try_map f xs = Inr (map g xs)"
  by (induction xs) auto

lemma try_map_map: "try_map f (map g xs) = try_map (\<lambda>x. f (g x)) xs"
  by (induction xs) (auto split: sum.splits)

lemma try_map_zip_rows:
  "(case try_map f xs of Inl e \<Rightarrow> Inl e | Inr ys \<Rightarrow> Inr (map2 h xs (map k ys))) =
   try_map (\<lambda>x. case f x of Inl e \<Rightarrow> Inl e | Inr y \<Rightarrow> Inr (h x (k y))) xs"
  by (induction xs) (auto split: sum.splits)

section \<open>The key column, row by row\<close>

lemma create_normalized_key_rows:
  "create_normalized_key stem df =
   try_map (\<lambda>r. case key_of stem (raw_text r) of
                   Inl e \<Rightarrow> Inl e
                 | Inr k \<Rightarrow> Inr \<lparr>raw_text = raw_text r, key = k\<rparr>) df"
proof -
  have "create_normalized_key stem df =
    (case try_map (\<lambda>r. try_map stem (tokens (raw_text r))) df of
       Inl e \<Rightarrow> Inl e
     | Inr col \<Rightarrow> Inr (map2 (\<lambda>r k. \<lparr>raw_text = raw_text r, key = k\<rparr>) df (map build_key col)))"
    by (simp add: create_normalized_key_def Let_def try_map_map tokens_def build_key_def[abs_def] comp_def split: sum.split)
  also have "\<dots> = try_map (\<lambda>r. case try_map stem (tokens (raw_text r)) of
       Inl e \<Rightarrow> Inl e | Inr ts \<Rightarrow> Inr \<lparr>raw_text = raw_text r, key = build_key ts\<rparr>) df"
    by (rule try_map_zip_rows)
  also have "\<dots> = try_map (\<lambda>r. case key_of stem (raw_text r) of
                   Inl e \<Rightarrow> Inl e
                 | Inr k \<Rightarrow> Inr \<lparr>raw_text = raw_text r, key = k\<rparr>) df"
    by (rule arg_cong [where f = "\<lambda>f. try_map f df"], rule ext)
      (simp add: key_of_def split: sum.splits)
  finally show ?thesis .
qed

section \<open>The dictionary of representatives\<close>

lemma keys_drop_duplicates: "key ` set (drop_duplicates df) = key ` set df"
  by (induction df rule: drop_duplicates.induct) auto

lemma distinct_drop_duplicates: "distinct (map key (drop_duplicates df))"
proof (induction df rule: drop_duplicates.induct)
  case 1
  then show ?case by simp
next
  case (2 r rs)
  have "key r \<notin> key ` set (drop_duplicates (filter (\<lambda>r'. key r' \<noteq> key r) rs))"
    by (auto simp: keys_drop_duplicates)
  with 2 show ?case by simp
qed

lemma find_filter_other:
  "(\<And>x. P x \<Longrightarrow> Q x) \<Longrightarrow> find P (filter Q xs) = find P xs"
  by (induction xs) auto

lemma map_of_drop_duplicates:
  "map_of (map (\<lambda>r. (key r, raw_text r)) (drop_duplicates df)) k =
   map_option raw_text (find (\<lambda>r. key r = k) df)"
proof (induction df rule: drop_duplicates.induct)
  case 1
  then show ?case by simp
next
  case (2 r rs)
  show ?case
  proof (cases "key r = k")
    case True
    then show ?thesis by simp
  next
    case False
    have "find (\<lambda>r'. key r' = k) (filter (\<lambda>r'. key r' \<noteq> key r) rs) = find (\<lambda>r'. key r' = k) rs"
      using False by (intro find_filter_other) auto
    with 2 False show ?thesis by simp
  qed
qed

lemma map_of_rev_distinct:
  "distinct (map fst ps) \<Longrightarrow> map_of (rev ps) = map_of ps"
  by (rule map_of_inject_set [THEN iffD2]) (simp_all add: rev_map [symmetric])

lemma key_dict_find:
  "key_dict df k = map_option raw_text (find (\<lambda>r. key r = k) df)"
proof -
  let ?ps = "map (\<lambda>r. (key r, raw_text r)) (drop_duplicates df)"
  have "distinct (map fst ?ps)"
    using distinct_drop_duplicates [of df] by (simp add: comp_def)
  then have "map_of (rev ?ps) = map_of ?ps"
    by (rule map_of_rev_distinct)
  moreover have "zip (map key (drop_duplicates df)) (map raw_text (drop_duplicates df)) = ?ps"
    by (simp add: zip_map_map zip_same_conv_map)
  ultimately show ?thesis
    by (simp add: key_dict_def dict_def Let_def map_of_drop_duplicates)
qed

lemma find_map: "find P (map g xs) = map_option g (find (\<lambda>x. P (g x)) xs)"
  by (induction xs) auto


lemma find_key_Some:
  "r \<in> set df \<Longrightarrow> \<exists>r0. find (\<lambda>r'. key r' = key r) df = Some r0"
  by (cases "find (\<lambda>r'. key r' = key r) df") (auto simp: find_None_iff)

lemma dom_key_dict: "dom (key_dict df) = key ` set df"
proof
  show "dom (key_dict df) \<subseteq> key ` set df"
    by (auto simp: key_dict_find dom_def find_Some_iff)
  show "key ` set df \<subseteq> dom (key_dict df)"
  proof
    fix k assume "k \<in> key ` set df"
    then obtain r where "r \<in> set df" "k = key r" by auto
    then show "k \<in> dom (key_dict df)"
      using find_key_Some [of r df] by (auto simp: key_dict_find)
  qed
qed

lemma keyed_rows_sound:
  assumes "create_normalized_key stem R = Inr df"
  shows "list_all2 (\<lambda>r r'. raw_text r' = raw_text r \<and> key_of stem (raw_text r) = Inr (key r')) R df"
proof -
  have "list_all2 (\<lambda>r r'. (case key_of stem (raw_text r) of
                   Inl e \<Rightarrow> Inl e
                 | Inr k \<Rightarrow> Inr \<lparr>raw_text = raw_text r, key = k\<rparr>) = Inr r') R df"
    using assms unfolding create_normalized_key_rows by (rule try_map_Inr_D)
  then show ?thesis
    by (rule list_all2_mono) (auto split: sum.splits)
qed

lemma keyed_row_key_of:
  assumes "create_normalized_key stem R = Inr df" and "r' \<in> set df"
  shows "key_of stem (raw_text r') = Inr (key r')"
proof -
  from assms(2) obtain i where i: "i < length df" "df ! i = r'"
    by (auto simp: in_set_conv_nth)
  from keyed_rows_sound [OF assms(1)] i show ?thesis
    by (auto simp: list_all2_conv_all_nth)
qed

lemma key_dict_member:
  assumes "r \<in> set df"
  shows "\<exists>r0 \<in> set df. key r0 = key r \<and> key_dict df (key r) = Some (raw_text r0)"
proof -
  from find_key_Some [OF assms] obtain r0 where f: "find (\<lambda>r'. key r' = key r) df = Some r0"
    by blast
  then have "r0 \<in> set df" "key r0 = key r"
    by (auto simp: find_Some_iff)
  with f show ?thesis
    by (auto simp: key_dict_find)
qed

text \<open>Replacing every \<open>raw_text\<close> by its representative leaves the dictionary as it
  is: the first row of a key is its own representative.\<close>

lemma key_dict_recomputed:
  "key_dict (map (\<lambda>r. \<lparr>raw_text = the (key_dict df (key r)), key = key r\<rparr>) df) k = key_dict df k"
proof (cases "find (\<lambda>r. key r = k) df")
  case None
  then show ?thesis
    by (simp add: key_dict_find find_map)
next
  case (Some r)
  then have "key r = k"
    by (auto simp: find_Some_iff)
  with Some show ?thesis
    by (simp add: key_dict_find find_map)
qed

lemma count_list_distinct:
  "distinct xs \<Longrightarrow> x \<in> set xs \<Longrightarrow> count_list xs x = 1"
  by (induction xs) auto

section \<open>Splitting and the normalizer of the specification\<close>

lemma str_split_Nil: "str_split [] = []"
  by (simp add: str_split.simps)

lemma str_split_space: "isspace c \<Longrightarrow> str_split (c # cs) = str_split cs"
  by (subst str_split.simps, subst (2) str_split.simps) simp

lemma str_split_word:
  "\<not> isspace c \<Longrightarrow>
   str_split (c # cs) =
     (c # takeWhile (\<lambda>x. \<not> isspace x) cs) # str_split (dropWhile (\<lambda>x. \<not> isspace x) cs)"
  by (subst str_split.simps) simp

lemma str_split_all_space: "\<forall>c \<in> set s. isspace c \<Longrightarrow> str_split s = []"
  by (induction s) (simp_all add: str_split_Nil str_split_space)

lemma str_split_tokens:
  "t \<in> set (str_split s) \<Longrightarrow> t \<noteq> [] \<and> (\<forall>c \<in> set t. \<not> isspace c)"
proof (induction s arbitrary: t rule: length_induct)
  case (1 s)
  show ?case
  proof (cases s)
    case Nil
    with 1 show ?thesis by (simp add: str_split_Nil)
  next
    case (Cons c cs)
    show ?thesis
    proof (cases "isspace c")
      case True
      with 1(2) Cons have "t \<in> set (str_split cs)"
        by (simp add: str_split_space)
      moreover have "length cs < length s"
        using Cons by simp
      ultimately show ?thesis
        using 1(1) by blast
    next
      case False
      have len: "length (dropWhile (\<lambda>x. \<not> isspace x) cs) < length s"
        using Cons length_dropWhile_le [of "\<lambda>x. \<not> isspace x" cs] by simp
      from 1(2) Cons False
      consider "t = c # takeWhile (\<lambda>x. \<not> isspace x) cs"
        | "t \<in> set (str_split (dropWhile (\<lambda>x. \<not> isspace x) cs))"
        by (auto simp: str_split_word)
      then show ?thesis
      proof cases
        case 1
        with False show ?thesis
          by (auto dest: set_takeWhileD)
      next
        case 2
        with 1(1) len show ?thesis by blast
      qed
    qed
  qed
qed

lemma pieces_shape:
  "pieces s =
     takeWhile (\<lambda>x. \<not> isspace x) s #
       (case dropWhile (\<lambda>x. \<not> isspace x) s of [] \<Rightarrow> [] | d # rest \<Rightarrow> pieces rest)"
  by (induction s) auto

lemma spec_split_Nil: "spec_split [] = []"
  by (simp add: spec_split_def)

lemma spec_split_space: "isspace c \<Longrightarrow> spec_split (c # cs) = spec_split cs"
  by (simp add: spec_split_def)

lemma spec_split_after_word:
  "spec_split (dropWhile (\<lambda>x. \<not> isspace x) cs) =
   filter (\<lambda>t. t \<noteq> [])
     (case dropWhile (\<lambda>x. \<not> isspace x) cs of [] \<Rightarrow> [] | d # rest \<Rightarrow> pieces rest)"
proof (cases "dropWhile (\<lambda>x. \<not> isspace x) cs")
  case Nil
  show ?thesis unfolding Nil by (simp add: spec_split_def)
next
  case (Cons d rest)
  then have "isspace d"
    using hd_dropWhile [of "\<lambda>x. \<not> isspace x" cs] by auto
  with Cons show ?thesis by (simp add: spec_split_def)
qed

lemma spec_split_word:
  assumes "\<not> isspace c"
  shows "spec_split (c # cs) =
     (c # takeWhile (\<lambda>x. \<not> isspace x) cs) # spec_split (dropWhile (\<lambda>x. \<not> isspace x) cs)"
proof -
  have "spec_split (c # cs) =
      filter (\<lambda>t. t \<noteq> []) (takeWhile (\<lambda>x. \<not> isspace x) (c # cs) #
       (case dropWhile (\<lambda>x. \<not> isspace x) (c # cs) of [] \<Rightarrow> [] | d # rest \<Rightarrow> pieces rest))"
    unfolding spec_split_def by (subst pieces_shape) (rule refl)
  also have "\<dots> = (c # takeWhile (\<lambda>x. \<not> isspace x) cs) #
      filter (\<lambda>t. t \<noteq> [])
        (case dropWhile (\<lambda>x. \<not> isspace x) cs of [] \<Rightarrow> [] | d # rest \<Rightarrow> pieces rest)"
    using assms by simp
  finally show ?thesis
    by (simp add: spec_split_after_word)
qed

lemma str_split_eq_spec_split: "str_split s = spec_split s"
proof (induction s rule: length_induct)
  case (1 s)
  show ?case
  proof (cases s)
    case Nil
    then show ?thesis by (simp add: str_split_Nil spec_split_Nil)
  next
    case (Cons c cs)
    show ?thesis
    proof (cases "isspace c")
      case True
      with 1 Cons show ?thesis
        by (simp add: str_split_space spec_split_space)
    next
      case False
      have "length (dropWhile (\<lambda>x. \<not> isspace x) cs) < length s"
        using Cons length_dropWhile_le [of "\<lambda>x. \<not> isspace x" cs] by simp
      with 1 have "str_split (dropWhile (\<lambda>x. \<not> isspace x) cs) =
          spec_split (dropWhile (\<lambda>x. \<not> isspace x) cs)"
        by blast
      with False Cons show ?thesis
        by (simp add: str_split_word spec_split_word)
    qed
  qed
qed

lemma spec_trim_left_eq: "spec_trim_left s = dropWhile isspace s"
  by (induction s) auto

lemma str_strip_eq_spec_trim: "str_strip s = spec_trim s"
  by (simp add: str_strip_def spec_trim_def spec_trim_left_eq)

lemma str_replace_delete: "str_replace c [] s = filter (\<lambda>x. x \<noteq> c) s"
  by (induction s) (auto simp: str_replace_def)

lemma punctuation_spec: "set punctuation = insert (CHR ''-'') (set spec_punctuation)"
  by (auto simp: punctuation_def spec_punctuation_def)

lemma str_translate_after_hyphens:
  "str_translate punctuation (filter (\<lambda>x. x \<noteq> CHR ''-'') s) =
   spec_delete_punctuation (spec_delete_hyphens s)"
  by (induction s)
    (auto simp: str_translate_def spec_delete_punctuation_def spec_delete_hyphens_def punctuation_spec)

lemma tokens_eq_spec:
  "tokens raw =
   spec_split (spec_delete_punctuation (spec_delete_hyphens (map lower_char (spec_trim raw))))"
  by (simp add: tokens_def str_split_eq_spec_split str_replace_delete str_translate_after_hyphens
      str_lower_def str_strip_eq_spec_trim)

section \<open>Texts without a token\<close>

lemma lower_char_fix_all: "list_all (\<lambda>c. lower_char c = c) (punctuation @ whitespace)"
  by code_simp

lemma lower_char_fix:
  "c \<in> set punctuation \<union> set whitespace \<Longrightarrow> lower_char c = c"
  using lower_char_fix_all by (auto simp: list_all_iff)

lemma hyphen_punctuation: "CHR ''-'' \<in> set punctuation"
  by code_simp

lemma set_str_strip: "set (str_strip s) \<subseteq> set s"
  by (auto simp: str_strip_def dest!: set_dropWhileD)

lemma blank_tokens:
  assumes "set raw \<subseteq> set punctuation \<union> {CHR ''-''} \<union> set whitespace"
  shows "tokens raw = []"
proof -
  have sub: "set (str_strip raw) \<subseteq> set punctuation \<union> set whitespace"
    using assms set_str_strip [of raw] hyphen_punctuation by auto
  then have "str_lower (str_strip raw) = str_strip raw"
    unfolding str_lower_def by (intro map_idI lower_char_fix) auto
  moreover have "\<forall>c \<in> set (str_translate punctuation (str_replace (CHR ''-'') [] (str_strip raw))).
      isspace c"
    using sub by (auto simp: str_translate_def str_replace_delete isspace_def)
  ultimately show ?thesis
    by (simp add: tokens_def str_split_all_space)
qed

lemma build_key_Nil: "build_key [] = []"
  by (simp add: build_key_def)

lemma key_of_blank:
  assumes "set raw \<subseteq> set punctuation \<union> {CHR ''-''} \<union> set whitespace"
  shows "key_of stem raw = Inr []"
  by (simp add: key_of_def blank_tokens [OF assms] build_key_Nil)

lemma nth_generate_cleaned_text:
  "i < length df \<Longrightarrow> cleaned_text (generate_cleaned_text df ! i) = key_dict df (key (df ! i))"
  by (simp add: generate_cleaned_text_def)

section \<open>Keys of token sequences\<close>

lemma str_join_Cons:
  "str_join sep (x # xs) = (if xs = [] then x else x @ sep @ str_join sep xs)"
  by (cases xs) simp_all

lemma space_separates:
  assumes "CHR '' '' \<notin> set x" and "CHR '' '' \<notin> set y"
    and "x @ CHR '' '' # r1 = y @ CHR '' '' # r2"
  shows "x = y \<and> r1 = r2"
proof -
  have "takeWhile (\<lambda>c. c \<noteq> CHR '' '') (x @ CHR '' '' # r1) =
      x @ takeWhile (\<lambda>c. c \<noteq> CHR '' '') (CHR '' '' # r1)"
    by (rule takeWhile_append2) (use assms(1) in auto)
  moreover have "takeWhile (\<lambda>c. c \<noteq> CHR '' '') (y @ CHR '' '' # r2) =
      y @ takeWhile (\<lambda>c. c \<noteq> CHR '' '') (CHR '' '' # r2)"
    by (rule takeWhile_append2) (use assms(2) in auto)
  ultimately have "x = y"
    using assms(3) by simp
  with assms(3) show ?thesis
    by simp
qed

lemma str_join_tokens_inj:
  assumes "list_all is_token xs" and "list_all is_token ys"
    and "str_join '' '' xs = str_join '' '' ys"
  shows "xs = ys"
  using assms
proof (induction xs arbitrary: ys)
  case Nil
  then show ?case
    by (cases ys) (auto simp: str_join_Cons is_token_def split: if_splits)
next
  case (Cons x xs)
  show ?case
  proof (cases ys)
    case Nil
    with Cons.prems show ?thesis
      by (auto simp: str_join_Cons is_token_def split: if_splits)
  next
    case ys: (Cons y ys')
    from Cons.prems ys have tok: "is_token x" "is_token y" "list_all is_token xs" "list_all is_token ys'"
      by simp_all
    show ?thesis
    proof (cases "xs = []")
      case True
      show ?thesis
      proof (cases "ys' = []")
        case True
        with \<open>xs = []\<close> Cons.prems(3) ys show ?thesis by simp
      next
        case False
        with \<open>xs = []\<close> Cons.prems(3) ys have "x = y @ CHR '' '' # str_join '' '' ys'"
          by (simp add: str_join_Cons)
        then have "CHR '' '' \<in> set x" by simp
        with tok(1) show ?thesis by (simp add: is_token_def)
      qed
    next
      case False
      show ?thesis
      proof (cases "ys' = []")
        case True
        with \<open>xs \<noteq> []\<close> Cons.prems(3) ys have "y = x @ CHR '' '' # str_join '' '' xs"
          by (simp add: str_join_Cons)
        then have "CHR '' '' \<in> set y" by simp
        with tok(2) show ?thesis by (simp add: is_token_def)
      next
        case ne: False
        with False Cons.prems(3) ys
        have "x @ CHR '' '' # str_join '' '' xs = y @ CHR '' '' # str_join '' '' ys'"
          by (simp add: str_join_Cons)
        with tok(1,2) have "x = y" "str_join '' '' xs = str_join '' '' ys'"
          using space_separates [of x y] by (auto simp: is_token_def)
        with Cons.IH [OF tok(3,4)] ys show ?thesis by simp
      qed
    qed
  qed
qed

lemma is_token_sorted_set:
  "list_all is_token t \<Longrightarrow> list_all is_token (sorted_list_of_set (set t))"
  by (simp add: list_all_iff)

lemma tokens_are_tokens: "list_all is_token (tokens raw)"
proof -
  have "CHR '' '' \<in> set whitespace"
    by code_simp
  then show ?thesis
    using str_split_tokens by (fastforce simp: list_all_iff is_token_def tokens_def isspace_def)
qed

text \<open>A string with a space, or the empty string, is no token: of such strings the
  key does not tell the set.\<close>

lemma build_key_of_non_tokens:
  "build_key [''a b''] = build_key [''a'', ''b''] \<and> build_key [[]] = build_key []"
  by code_simp

lemma build_key_inj:
  assumes "list_all is_token t1" and "list_all is_token t2"
    and "build_key t1 = build_key t2"
  shows "set t1 = set t2"
proof -
  from assms have "sorted_list_of_set (set t1) = sorted_list_of_set (set t2)"
    unfolding build_key_def by (intro str_join_tokens_inj is_token_sorted_set)
  then have "set (sorted_list_of_set (set t1)) = set (sorted_list_of_set (set t2))"
    by (rule arg_cong)
  then show ?thesis
    by simp
qed

lemma stemmed_tokens:
  assumes "try_map stem (tokens raw) = Inr ts"
    and "\<And>t s. is_token t \<Longrightarrow> stem t = Inr s \<Longrightarrow> is_token s"
  shows "list_all is_token ts"
proof -
  from assms(1) have "list_all2 (\<lambda>t s. stem t = Inr s) (tokens raw) ts"
    by (rule try_map_Inr_D)
  moreover have "list_all is_token (tokens raw)"
    by (rule tokens_are_tokens)
  ultimately show ?thesis
    using assms(2)
    by (auto simp: list_all2_conv_all_nth list_all_length)
qed

text \<open>Two rows of a frame have one key exactly when their sets of stemmed tokens are
  equal, for a stemmer that maps a token to a token.\<close>

lemma rows_same_key_iff:
  assumes "create_normalized_key stem R = Inr df" and "i < length R" and "j < length R"
    and tok: "\<And>t s. is_token t \<Longrightarrow> stem t = Inr s \<Longrightarrow> is_token s"
  shows "\<exists>ti tj. try_map stem (tokens (raw_text (R ! i))) = Inr ti \<and>
           try_map stem (tokens (raw_text (R ! j))) = Inr tj \<and>
           (key (df ! i) = key (df ! j) \<longleftrightarrow> set ti = set tj)"
proof -
  have row: "\<exists>ts. try_map stem (tokens (raw_text (R ! n))) = Inr ts \<and> key (df ! n) = build_key ts"
    if "n < length R" for n
  proof -
    from keyed_rows_sound [OF assms(1)] that
    have "key_of stem (raw_text (R ! n)) = Inr (key (df ! n))"
      by (simp add: list_all2_conv_all_nth)
    then show ?thesis
      by (cases "try_map stem (tokens (raw_text (R ! n)))") (simp_all add: key_of_def)
  qed
  from row [OF assms(2)] obtain ti
    where ti: "try_map stem (tokens (raw_text (R ! i))) = Inr ti" "key (df ! i) = build_key ti"
    by blast
  from row [OF assms(3)] obtain tj
    where tj: "try_map stem (tokens (raw_text (R ! j))) = Inr tj" "key (df ! j) = build_key tj"
    by blast
  have "list_all is_token ti" "list_all is_token tj"
    using ti(1) tj(1) tok by (blast intro: stemmed_tokens)+
  then have "build_key ti = build_key tj \<longleftrightarrow> set ti = set tj"
    using build_key_inj by (auto simp: build_key_def)
  with ti tj show ?thesis
    by auto
qed

section \<open>The files written\<close>

lemma save_data_rows:
  "save_data df output_file fs =
   Inr (fs(output_file \<mapsto>
     \<lparr>header = [''raw_text'', ''cleaned_text''],
      records = map (\<lambda>r. [raw_text r, case cleaned_text r of None \<Rightarrow> [] | Some s \<Rightarrow> s]) df\<rparr>))"
proof -
  have "select_columns [''raw_text'', ''cleaned_text''] (as_frame df) =
      Inr [(''raw_text'', map (\<lambda>r. Some (raw_text r)) df), (''cleaned_text'', map cleaned_text df)]"
    by (simp add: as_frame_def)
  moreover have "map (\<lambda>i. [case map (\<lambda>r. Some (raw_text r)) df ! i of None \<Rightarrow> [] | Some s \<Rightarrow> s,
                     case map cleaned_text df ! i of None \<Rightarrow> [] | Some s \<Rightarrow> s]) [0 ..< length df] =
      map (\<lambda>r. [raw_text r, case cleaned_text r of None \<Rightarrow> [] | Some s \<Rightarrow> s]) df"
    by (rule nth_equalityI) simp_all
  ultimately show ?thesis
    by (simp add: save_data_def to_csv_def)
qed

lemma main_cases:
  "main stem R output_file fs =
   (case create_normalized_key stem R of
      Inl e \<Rightarrow> (Some (StemmerError e), fs)
    | Inr df \<Rightarrow>
        (None,
         fs(''files/test.csv'' \<mapsto> to_csv (as_frame (generate_cleaned_text df)),
            output_file \<mapsto>
              \<lparr>header = [''raw_text'', ''cleaned_text''],
               records = map (\<lambda>r. [raw_text r, case cleaned_text r of None \<Rightarrow> [] | Some s \<Rightarrow> s])
                 (generate_cleaned_text df)\<rparr>)))"
  by (simp add: main_def save_data_rows Let_def split: sum.splits)

lemma raw_text_generate_cleaned_text:
  "map raw_text (generate_cleaned_text df) = map raw_text df"
  by (simp add: generate_cleaned_text_def comp_def)

lemma raw_text_create_normalized_key:
  assumes "create_normalized_key stem R = Inr df"
  shows "map raw_text df = map raw_text R"
  using keyed_rows_sound [OF assms]
  by (auto simp: list_all2_conv_all_nth list_eq_iff_nth_eq)

lemma to_csv_as_frame:
  "to_csv (as_frame d) =
   \<lparr>header = [''raw_text'', ''key'', ''cleaned_text''],
    records = map (\<lambda>r. [raw_text r, key r, case cleaned_text r of None \<Rightarrow> [] | Some s \<Rightarrow> s]) d\<rparr>"
proof -
  have "map (\<lambda>i. [case map (\<lambda>r. Some (raw_text r)) d ! i of None \<Rightarrow> [] | Some s \<Rightarrow> s,
                   case map (\<lambda>r. Some (key r)) d ! i of None \<Rightarrow> [] | Some s \<Rightarrow> s,
                   case map cleaned_text d ! i of None \<Rightarrow> [] | Some s \<Rightarrow> s]) [0 ..< length d] =
      map (\<lambda>r. [raw_text r, key r, case cleaned_text r of None \<Rightarrow> [] | Some s \<Rightarrow> s]) d"
    by (rule nth_equalityI) simp_all
  then show ?thesis
    by (simp add: to_csv_def as_frame_def)
qed

lemma cleaned_text_Some:
  "\<exists>cs. length cs = length df \<and> map cleaned_text (generate_cleaned_text df) = map Some cs"
proof -
  have "key_dict df (key r) = Some (the (key_dict df (key r)))" if "r \<in> set df" for r
    using key_dict_member [OF that] by auto
  then have "map cleaned_text (generate_cleaned_text df) =
      map Some (map (\<lambda>r. the (key_dict df (key r))) df)"
    by (simp add: generate_cleaned_text_def)
  then show ?thesis
    by (intro exI [of _ "map (\<lambda>r. the (key_dict df (key r))) df"]) simp
qed

lemma records_two_columns:
  assumes "map cleaned_text d = map Some cs" and "map raw_text d = map raw_text R"
  shows "map (\<lambda>r. [raw_text r, case cleaned_text r of None \<Rightarrow> [] | Some s \<Rightarrow> s]) d =
         map2 (\<lambda>r c. [raw_text r, c]) R cs"
proof (rule nth_equalityI)
  have len: "length d = length cs" "length d = length R"
    using assms by (metis length_map)+
  then show "length (map (\<lambda>r. [raw_text r, case cleaned_text r of None \<Rightarrow> [] | Some s \<Rightarrow> s]) d) =
      length (map2 (\<lambda>r c. [raw_text r, c]) R cs)"
    by simp
  fix i assume "i < length (map (\<lambda>r. [raw_text r, case cleaned_text r of None \<Rightarrow> [] | Some s \<Rightarrow> s]) d)"
  then have i: "i < length d"
    by simp
  with assms len have "cleaned_text (d ! i) = Some (cs ! i)" "raw_text (d ! i) = raw_text (R ! i)"
    by (metis nth_map)+
  with i len show "map (\<lambda>r. [raw_text r, case cleaned_text r of None \<Rightarrow> [] | Some s \<Rightarrow> s]) d ! i =
      map2 (\<lambda>r c. [raw_text r, c]) R cs ! i"
    by simp
qed

lemma records_three_columns:
  assumes "map cleaned_text d = map Some cs" and "map raw_text d = map raw_text df"
    and "map key d = map key df"
  shows "map (\<lambda>r. [raw_text r, key r, case cleaned_text r of None \<Rightarrow> [] | Some s \<Rightarrow> s]) d =
         map2 (\<lambda>r c. [raw_text r, key r, c]) df cs"
proof (rule nth_equalityI)
  have len: "length d = length cs" "length d = length df"
    using assms by (metis length_map)+
  then show "length (map (\<lambda>r. [raw_text r, key r, case cleaned_text r of None \<Rightarrow> [] | Some s \<Rightarrow> s]) d) =
      length (map2 (\<lambda>r c. [raw_text r, key r, c]) df cs)"
    by simp
  fix i assume "i < length (map (\<lambda>r. [raw_text r, key r, case cleaned_text r of None \<Rightarrow> [] | Some s \<Rightarrow> s]) d)"
  then have i: "i < length d"
    by simp
  with assms len have "cleaned_text (d ! i) = Some (cs ! i)" "raw_text (d ! i) = raw_text (df ! i)"
    "key (d ! i) = key (df ! i)"
    by (metis nth_map)+
  with i len show "map (\<lambda>r. [raw_text r, key r, case cleaned_text r of None \<Rightarrow> [] | Some s \<Rightarrow> s]) d ! i =
      map2 (\<lambda>r c. [raw_text r, key r, c]) df cs ! i"
    by simp
qed

lemma key_generate_cleaned_text: "map key (generate_cleaned_text df) = map key df"
  by (simp add: generate_cleaned_text_def comp_def)

section \<open>A stemmer that raises\<close>

lemma try_map_Inl_D: "try_map f xs = Inl e \<Longrightarrow> \<exists>x \<in> set xs. f x = Inl e"
  by (induction xs) (auto split: sum.splits)

lemma key_of_Inl_D:
  "key_of stem raw = Inl e \<Longrightarrow> \<exists>t \<in> set (tokens raw). stem t = Inl e"
  by (auto simp: key_of_def split: sum.splits dest: try_map_Inl_D)

lemma create_normalized_key_Inl_D:
  assumes "create_normalized_key stem R = Inl e"
  shows "\<exists>r \<in> set R. \<exists>t \<in> set (tokens (raw_text r)). stem t = Inl e"
proof -
  from assms have "\<exists>r \<in> set R. (case key_of stem (raw_text r) of Inl e \<Rightarrow> Inl e
      | Inr k \<Rightarrow> Inr \<lparr>raw_text = raw_text r, key = k\<rparr>) = Inl e"
    unfolding create_normalized_key_rows by (rule try_map_Inl_D)
  then obtain r where r: "r \<in> set R" and c: "(case key_of stem (raw_text r) of Inl e \<Rightarrow> Inl e
      | Inr k \<Rightarrow> Inr \<lparr>raw_text = raw_text r, key = k\<rparr>) = Inl e"
    by blast
  have "key_of stem (raw_text r) = Inl e"
  proof (cases "key_of stem (raw_text r)")
    case (Inl x)
    with c show ?thesis by simp
  next
    case (Inr k)
    with c show ?thesis by simp
  qed
  then have "\<exists>t \<in> set (tokens (raw_text r)). stem t = Inl e"
    by (rule key_of_Inl_D)
  with r show ?thesis
    by blast
qed

section \<open>The first scenario of the specification\<close>

lemma scenario_tokens:
  "tokens ''Running fast!'' = [''running'', ''fast'']"
  "tokens ''runner-fast'' = [''runnerfast'']"
  "tokens ''  RUNNING FAST  '' = [''running'', ''fast'']"
  by code_simp+

lemma build_key_run_fast: "build_key [''run'', ''fast''] = ''fast run''"
  by code_simp

lemma build_key_single: "build_key [s] = s"
  by (simp add: build_key_def)

section \<open>The claims\<close>

text \<open>
  C1 (the representative of a cluster is its lexicographically smallest \<open>raw_text\<close>,
  whatever the row order) is what lines 74 to 80 announce and not what line 81 does.
  For the rows "apple" and "Apple", which have one key, both rows get the
  \<open>cleaned_text\<close> "apple", the first row's text, although "Apple" is the smaller
  text; with the two rows exchanged, both get "Apple".
\<close>

theorem first_row_not_smallest:
  "create_normalized_key (scenario_stemmer :: string \<Rightarrow> unit + string)
     [\<lparr>raw_text = ''apple''\<rparr>, \<lparr>raw_text = ''Apple''\<rparr>] =
     Inr [\<lparr>raw_text = ''apple'', key = ''appl''\<rparr>, \<lparr>raw_text = ''Apple'', key = ''appl''\<rparr>] \<and>
   map cleaned_text (generate_cleaned_text
     [\<lparr>raw_text = ''apple'', key = ''appl''\<rparr>, \<lparr>raw_text = ''Apple'', key = ''appl''\<rparr>]) =
     [Some ''apple'', Some ''apple''] \<and>
   (''Apple'' :: string) < ''apple'' \<and>
   map cleaned_text (generate_cleaned_text
     [\<lparr>raw_text = ''Apple'', key = ''appl''\<rparr>, \<lparr>raw_text = ''apple'', key = ''appl''\<rparr>]) =
     [Some ''Apple'', Some ''Apple'']"
  by code_simp

text \<open>
  C2. The dictionary of representatives has the keys of the frame as its domain, the
  frame it is built from holds every key \<open>k\<close> of the frame once, and one row \<open>rep\<close>
  of the frame with key \<open>k\<close> gives the representative: the dictionary maps \<open>k\<close> to
  the \<open>raw_text\<close> of \<open>rep\<close>, and every row with key \<open>k\<close> (the row \<open>rep\<close> among
  them) ends with this \<open>cleaned_text\<close>.
\<close>

theorem cluster_coverage:
  assumes "k \<in> key ` set df"
  shows "dom (key_dict df) = key ` set df \<and>
         count_list (map key (drop_duplicates df)) k = 1 \<and>
         (\<exists>rep \<in> set df. key rep = k \<and>
            key_dict df k = Some (raw_text rep) \<and>
            (\<forall>i < length df. key (df ! i) = k \<longrightarrow>
               cleaned_text (generate_cleaned_text df ! i) = Some (raw_text rep)))"
proof (intro conjI)
  show "dom (key_dict df) = key ` set df"
    by (rule dom_key_dict)
next
  have "k \<in> set (map key (drop_duplicates df))"
    using assms by (simp add: keys_drop_duplicates)
  then show "count_list (map key (drop_duplicates df)) k = 1"
    using distinct_drop_duplicates by (rule count_list_distinct [rotated])
next
  from assms obtain r where "r \<in> set df" "key r = k"
    by auto
  then obtain rep where rep: "rep \<in> set df" "key rep = k" "key_dict df k = Some (raw_text rep)"
    using key_dict_member by blast
  have "cleaned_text (generate_cleaned_text df ! i) = Some (raw_text rep)"
    if "i < length df" "key (df ! i) = k" for i
    using that rep by (simp add: generate_cleaned_text_def)
  with rep show "\<exists>rep \<in> set df. key rep = k \<and>
            key_dict df k = Some (raw_text rep) \<and>
            (\<forall>i < length df. key (df ! i) = k \<longrightarrow>
               cleaned_text (generate_cleaned_text df ! i) = Some (raw_text rep))"
    by blast
qed

theorem cluster_coverage_witness:
  "count_list (map key (drop_duplicates
      [\<lparr>raw_text = ''Running fast!'', key = ''fast run''\<rparr>,
       \<lparr>raw_text = ''runner-fast'', key = ''runnerfast''\<rparr>,
       \<lparr>raw_text = ''  RUNNING FAST  '', key = ''fast run''\<rparr>])) ''fast run'' = 1 \<and>
   (\<exists>rep. key_dict
      [\<lparr>raw_text = ''Running fast!'', key = ''fast run''\<rparr>,
       \<lparr>raw_text = ''runner-fast'', key = ''runnerfast''\<rparr>,
       \<lparr>raw_text = ''  RUNNING FAST  '', key = ''fast run''\<rparr>] ''fast run'' = Some rep \<and>
     cleaned_text (generate_cleaned_text
      [\<lparr>raw_text = ''Running fast!'', key = ''fast run''\<rparr>,
       \<lparr>raw_text = ''runner-fast'', key = ''runnerfast''\<rparr>,
       \<lparr>raw_text = ''  RUNNING FAST  '', key = ''fast run''\<rparr>] ! 2) = Some rep)"
proof -
  let ?df = "[\<lparr>raw_text = ''Running fast!'', key = ''fast run''\<rparr>,
       \<lparr>raw_text = ''runner-fast'', key = ''runnerfast''\<rparr>,
       \<lparr>raw_text = ''  RUNNING FAST  '', key = ''fast run''\<rparr>]"
  have h: "''fast run'' \<in> key ` set ?df"
    by simp
  have i: "2 < length ?df" "key (?df ! 2) = ''fast run''"
    by simp_all
  from cluster_coverage [OF h] i show ?thesis
    by blast
qed

text \<open>
  C3. Running the pipeline again, on the \<open>cleaned_text\<close> values of a first run as the
  new \<open>raw_text\<close> values, returns (the stemmer raises on no token of the second run)
  and gives the \<open>cleaned_text\<close> values of the first run.
\<close>

theorem pipeline_idempotent:
  assumes "create_normalized_key stem R = Inr df1"
  shows "\<exists>cs df2.
           map cleaned_text (generate_cleaned_text df1) = map Some cs \<and>
           create_normalized_key stem (map (\<lambda>c. \<lparr>raw_text = c\<rparr>) cs) = Inr df2 \<and>
           map cleaned_text (generate_cleaned_text df2) = map Some cs"
proof -
  define cs where "cs = map (\<lambda>r. the (key_dict df1 (key r))) df1"
  define df2 where
    "df2 = map (\<lambda>r. \<lparr>raw_text = the (key_dict df1 (key r)), key = key r\<rparr>) df1"
  have first: "map cleaned_text (generate_cleaned_text df1) = map Some cs"
  proof -
    have "key_dict df1 (key r) = Some (the (key_dict df1 (key r)))" if "r \<in> set df1" for r
      using key_dict_member [OF that] by auto
    then show ?thesis
      by (simp add: generate_cleaned_text_def cs_def)
  qed
  have "create_normalized_key stem (map (\<lambda>c. \<lparr>raw_text = c\<rparr>) cs) =
        try_map (\<lambda>r. case key_of stem (the (key_dict df1 (key r))) of
                   Inl e \<Rightarrow> Inl e
                 | Inr k \<Rightarrow> Inr \<lparr>raw_text = the (key_dict df1 (key r)), key = k\<rparr>) df1"
    by (simp add: create_normalized_key_rows cs_def try_map_map comp_def cong: sum.case_cong)
  also have "\<dots> = Inr df2"
    unfolding df2_def
  proof (rule try_map_total)
    fix r assume "r \<in> set df1"
    then obtain r0 where r0: "r0 \<in> set df1" "key r0 = key r"
        "key_dict df1 (key r) = Some (raw_text r0)"
      using key_dict_member by blast
    from keyed_row_key_of [OF assms r0(1)] r0
    show "(case key_of stem (the (key_dict df1 (key r))) of
                   Inl e \<Rightarrow> Inl e
                 | Inr k \<Rightarrow> Inr \<lparr>raw_text = the (key_dict df1 (key r)), key = k\<rparr>) =
          Inr \<lparr>raw_text = the (key_dict df1 (key r)), key = key r\<rparr>"
      by simp
  qed
  finally have second: "create_normalized_key stem (map (\<lambda>c. \<lparr>raw_text = c\<rparr>) cs) = Inr df2" .
  have "map cleaned_text (generate_cleaned_text df2) = map cleaned_text (generate_cleaned_text df1)"
    by (simp add: generate_cleaned_text_def df2_def key_dict_recomputed comp_def)
  with first second show ?thesis
    by auto
qed

theorem pipeline_idempotent_witness:
  "\<exists>df2.
     create_normalized_key (scenario_stemmer :: string \<Rightarrow> unit + string)
       [\<lparr>raw_text = ''Running fast!''\<rparr>, \<lparr>raw_text = ''runner-fast''\<rparr>,
        \<lparr>raw_text = ''Running fast!''\<rparr>] = Inr df2 \<and>
     map cleaned_text (generate_cleaned_text df2) =
       [Some ''Running fast!'', Some ''runner-fast'', Some ''Running fast!'']"
proof -
  let ?df1 = "[\<lparr>raw_text = ''Running fast!'', key = ''fast run''\<rparr>,
        \<lparr>raw_text = ''runner-fast'', key = ''runnerfast''\<rparr>,
        \<lparr>raw_text = ''  RUNNING FAST  '', key = ''fast run''\<rparr>]"
  have h: "create_normalized_key (scenario_stemmer :: string \<Rightarrow> unit + string)
      [\<lparr>raw_text = ''Running fast!''\<rparr>, \<lparr>raw_text = ''runner-fast''\<rparr>,
       \<lparr>raw_text = ''  RUNNING FAST  ''\<rparr>] = Inr ?df1"
    by code_simp
  have first: "map cleaned_text (generate_cleaned_text ?df1) =
      map Some [''Running fast!'', ''runner-fast'', ''Running fast!'']"
    by code_simp
  from pipeline_idempotent [OF h] obtain cs df2
    where cs: "map cleaned_text (generate_cleaned_text ?df1) = map Some cs"
      and second: "create_normalized_key (scenario_stemmer :: string \<Rightarrow> unit + string)
        (map (\<lambda>c. \<lparr>raw_text = c\<rparr>) cs) = Inr df2"
      and same: "map cleaned_text (generate_cleaned_text df2) = map Some cs"
    by blast
  from cs first have "map Some cs = map Some [''Running fast!'', ''runner-fast'', ''Running fast!'']"
    by (rule trans [OF sym])
  then have "cs = [''Running fast!'', ''runner-fast'', ''Running fast!'']"
    by (simp only: inj_map_eq_map [OF inj_Some])
  with second same show ?thesis
    by auto
qed

text \<open>
  C4. For token sequences \<open>t1\<close> and \<open>t2\<close> (every token not empty and without a
  space, as the split leaves tokens), the keys built from them are equal if and only if
  their sets of distinct tokens are equal: the key does not depend on the order of the
  tokens or on how often a token occurs.
\<close>

theorem build_key_eq_iff:
  assumes "list_all is_token t1" and "list_all is_token t2"
  shows "build_key t1 = build_key t2 \<longleftrightarrow> set t1 = set t2"
proof
  assume "build_key t1 = build_key t2"
  with assms show "set t1 = set t2"
    by (rule build_key_inj)
next
  assume "set t1 = set t2"
  then show "build_key t1 = build_key t2"
    by (simp add: build_key_def)
qed

theorem build_key_eq_iff_witness:
  "list_all is_token [''run'', ''fast'', ''run''] \<and> list_all is_token [''fast'', ''run''] \<and>
   build_key [''run'', ''fast'', ''run''] = build_key [''fast'', ''run''] \<and>
   build_key [''run'', ''fast'', ''run''] \<noteq> build_key [''fast'', ''runner'']"
proof -
  have a: "list_all is_token [''run'', ''fast'', ''run'']"
    and b: "list_all is_token [''fast'', ''run'']"
    and c: "list_all is_token [''fast'', ''runner'']"
    by code_simp+
  have "set [''run'', ''fast'', ''run''] = set [''fast'', ''run'']"
    by code_simp
  moreover have "set [''run'', ''fast'', ''run''] \<noteq> set [''fast'', ''runner'']"
    by code_simp
  ultimately show ?thesis
    using build_key_eq_iff [OF a b] build_key_eq_iff [OF a c] a b by blast
qed

text \<open>
  C5. \<open>create_normalized_key\<close> computes, for every row, the key of the token
  sequence that the steps of the specification give in their order: trim, lowercase,
  delete the hyphens, delete the punctuation, split on whitespace runs without empty
  tokens, stem each token; where the stemmer raises, both raise the same exception.
\<close>

theorem normalizer_steps:
  "create_normalized_key stem df =
   try_map (\<lambda>r. case spec_normalize stem (raw_text r) of
                   Inl e \<Rightarrow> Inl e
                 | Inr ts \<Rightarrow> Inr \<lparr>raw_text = raw_text r, key = build_key ts\<rparr>) df"
  unfolding create_normalized_key_rows
  by (rule arg_cong [where f = "\<lambda>f. try_map f df"], rule ext)
    (simp add: key_of_def spec_normalize_def tokens_eq_spec split: sum.splits)

text \<open>
  C6. A \<open>raw_text\<close> of punctuation, hyphens and whitespace only (the empty string
  among them) has no token, its key is the empty string, and all such rows of a frame
  have this one key and the same \<open>cleaned_text\<close>.
\<close>

theorem blank_rows_collapse:
  assumes "create_normalized_key stem R = Inr df"
    and "i < length R"
    and "set (raw_text (R ! i)) \<subseteq> set punctuation \<union> {CHR ''-''} \<union> set whitespace"
  shows "tokens (raw_text (R ! i)) = [] \<and> key (df ! i) = [] \<and>
         (\<forall>j < length R.
            set (raw_text (R ! j)) \<subseteq> set punctuation \<union> {CHR ''-''} \<union> set whitespace \<longrightarrow>
            key (df ! j) = key (df ! i) \<and>
            cleaned_text (generate_cleaned_text df ! j) = cleaned_text (generate_cleaned_text df ! i))"
proof -
  note rows = keyed_rows_sound [OF assms(1)]
  then have len: "length df = length R"
    by (simp add: list_all2_lengthD)
  have blank_key: "key (df ! j) = []"
    if "j < length R" "set (raw_text (R ! j)) \<subseteq> set punctuation \<union> {CHR ''-''} \<union> set whitespace"
    for j
  proof -
    from rows that(1) have "key_of stem (raw_text (R ! j)) = Inr (key (df ! j))"
      by (simp add: list_all2_conv_all_nth)
    moreover have "key_of stem (raw_text (R ! j)) = Inr []"
      using that(2) by (rule key_of_blank)
    ultimately show ?thesis
      by simp
  qed
  have ki: "key (df ! i) = []"
    using assms(2,3) by (rule blank_key)
  have same: "key (df ! j) = key (df ! i) \<and>
      cleaned_text (generate_cleaned_text df ! j) = cleaned_text (generate_cleaned_text df ! i)"
    if "j < length R" "set (raw_text (R ! j)) \<subseteq> set punctuation \<union> {CHR ''-''} \<union> set whitespace"
    for j
  proof -
    have kj: "key (df ! j) = []"
      using that by (rule blank_key)
    have "cleaned_text (generate_cleaned_text df ! j) = key_dict df (key (df ! j))"
      using that(1) len by (simp only: nth_generate_cleaned_text)
    moreover have "cleaned_text (generate_cleaned_text df ! i) = key_dict df (key (df ! i))"
      using assms(2) len by (simp only: nth_generate_cleaned_text)
    ultimately show ?thesis
      by (simp only: kj ki)
  qed
  have "tokens (raw_text (R ! i)) = []"
    using assms(3) by (rule blank_tokens)
  with ki same show ?thesis
    by blast
qed

theorem blank_rows_collapse_witness:
  "tokens ''???...,,,'' = [] \<and>
   create_normalized_key (scenario_stemmer :: string \<Rightarrow> unit + string)
     [\<lparr>raw_text = ''???...,,,''\<rparr>, \<lparr>raw_text = ''apple''\<rparr>, \<lparr>raw_text = '' - ''\<rparr>, \<lparr>raw_text = ''''\<rparr>] =
   Inr [\<lparr>raw_text = ''???...,,,'', key = ''''\<rparr>, \<lparr>raw_text = ''apple'', key = ''appl''\<rparr>,
        \<lparr>raw_text = '' - '', key = ''''\<rparr>, \<lparr>raw_text = '''', key = ''''\<rparr>] \<and>
   cleaned_text (generate_cleaned_text
       [\<lparr>raw_text = ''???...,,,'', key = ''''\<rparr>, \<lparr>raw_text = ''apple'', key = ''appl''\<rparr>,
        \<lparr>raw_text = '' - '', key = ''''\<rparr>, \<lparr>raw_text = '''', key = ''''\<rparr>] ! 2) =
   cleaned_text (generate_cleaned_text
       [\<lparr>raw_text = ''???...,,,'', key = ''''\<rparr>, \<lparr>raw_text = ''apple'', key = ''appl''\<rparr>,
        \<lparr>raw_text = '' - '', key = ''''\<rparr>, \<lparr>raw_text = '''', key = ''''\<rparr>] ! 0)"
proof -
  let ?R = "[\<lparr>raw_text = ''???...,,,''\<rparr>, \<lparr>raw_text = ''apple''\<rparr>, \<lparr>raw_text = '' - ''\<rparr>, \<lparr>raw_text = ''''\<rparr>]"
  have h: "create_normalized_key (scenario_stemmer :: string \<Rightarrow> unit + string) ?R =
   Inr [\<lparr>raw_text = ''???...,,,'', key = ''''\<rparr>, \<lparr>raw_text = ''apple'', key = ''appl''\<rparr>,
        \<lparr>raw_text = '' - '', key = ''''\<rparr>, \<lparr>raw_text = '''', key = ''''\<rparr>]"
    by code_simp
  have i: "0 < length ?R"
    "set (raw_text (?R ! 0)) \<subseteq> set punctuation \<union> {CHR ''-''} \<union> set whitespace"
    by code_simp+
  have j: "2 < length ?R"
    "set (raw_text (?R ! 2)) \<subseteq> set punctuation \<union> {CHR ''-''} \<union> set whitespace"
    by code_simp+
  from blank_rows_collapse [OF h i] j h show ?thesis
    by simp
qed

text \<open>
  C7, as the code has it. With a stemmer that maps "running" to "run" and "fast" to
  itself, the rows "Running fast!" and "  RUNNING FAST  " have the stemmed tokens
  "run" and "fast", hence the key "fast run" and one \<open>cleaned_text\<close>; the row
  "runner-fast" has one token, the stem of "runnerfast", which is its key.
\<close>

theorem scenario_one:
  assumes "stem ''running'' = Inr ''run''" and "stem ''fast'' = Inr ''fast''"
    and "stem ''runnerfast'' = Inr s"
  shows "try_map stem (tokens ''Running fast!'') = Inr [''run'', ''fast''] \<and>
         try_map stem (tokens ''  RUNNING FAST  '') = Inr [''run'', ''fast''] \<and>
         try_map stem (tokens ''runner-fast'') = Inr [s] \<and>
         create_normalized_key stem
           [\<lparr>raw_text = ''Running fast!''\<rparr>, \<lparr>raw_text = ''runner-fast''\<rparr>,
            \<lparr>raw_text = ''  RUNNING FAST  ''\<rparr>] =
         Inr [\<lparr>raw_text = ''Running fast!'', key = ''fast run''\<rparr>,
              \<lparr>raw_text = ''runner-fast'', key = s\<rparr>,
              \<lparr>raw_text = ''  RUNNING FAST  '', key = ''fast run''\<rparr>] \<and>
         (\<exists>c. cleaned_text (generate_cleaned_text
             [\<lparr>raw_text = ''Running fast!'', key = ''fast run''\<rparr>,
              \<lparr>raw_text = ''runner-fast'', key = s\<rparr>,
              \<lparr>raw_text = ''  RUNNING FAST  '', key = ''fast run''\<rparr>] ! 0) = Some c \<and>
          cleaned_text (generate_cleaned_text
             [\<lparr>raw_text = ''Running fast!'', key = ''fast run''\<rparr>,
              \<lparr>raw_text = ''runner-fast'', key = s\<rparr>,
              \<lparr>raw_text = ''  RUNNING FAST  '', key = ''fast run''\<rparr>] ! 2) = Some c)"
proof -
  let ?df = "[\<lparr>raw_text = ''Running fast!'', key = ''fast run''\<rparr>,
              \<lparr>raw_text = ''runner-fast'', key = s\<rparr>,
              \<lparr>raw_text = ''  RUNNING FAST  '', key = ''fast run''\<rparr>]"
  have k1: "key_of stem ''Running fast!'' = Inr ''fast run''"
    and k3: "key_of stem ''  RUNNING FAST  '' = Inr ''fast run''"
    and k2: "key_of stem ''runner-fast'' = Inr s"
    using assms by (simp_all add: key_of_def scenario_tokens build_key_run_fast build_key_single)
  have keys: "create_normalized_key stem
           [\<lparr>raw_text = ''Running fast!''\<rparr>, \<lparr>raw_text = ''runner-fast''\<rparr>,
            \<lparr>raw_text = ''  RUNNING FAST  ''\<rparr>] = Inr ?df"
    by (simp add: create_normalized_key_rows k1 k2 k3)
  have toks: "try_map stem (tokens ''Running fast!'') = Inr [''run'', ''fast'']"
    "try_map stem (tokens ''  RUNNING FAST  '') = Inr [''run'', ''fast'']"
    "try_map stem (tokens ''runner-fast'') = Inr [s]"
    using assms by (simp_all add: scenario_tokens)
  have "\<lparr>raw_text = ''Running fast!'', key = ''fast run''\<rparr> \<in> set ?df"
    by simp
  from key_dict_member [OF this] obtain c where c: "key_dict ?df ''fast run'' = Some c"
    by auto
  have "cleaned_text (generate_cleaned_text ?df ! 0) = Some c"
    "cleaned_text (generate_cleaned_text ?df ! 2) = Some c"
    using c by (simp_all add: nth_generate_cleaned_text)
  then have "\<exists>c. cleaned_text (generate_cleaned_text ?df ! 0) = Some c \<and>
      cleaned_text (generate_cleaned_text ?df ! 2) = Some c"
    by blast
  with keys toks show ?thesis
    by (intro conjI)
qed

theorem scenario_one_witness:
  "create_normalized_key (scenario_stemmer :: string \<Rightarrow> unit + string)
           [\<lparr>raw_text = ''Running fast!''\<rparr>, \<lparr>raw_text = ''runner-fast''\<rparr>,
            \<lparr>raw_text = ''  RUNNING FAST  ''\<rparr>] =
         Inr [\<lparr>raw_text = ''Running fast!'', key = ''fast run''\<rparr>,
              \<lparr>raw_text = ''runner-fast'', key = ''runnerfast''\<rparr>,
              \<lparr>raw_text = ''  RUNNING FAST  '', key = ''fast run''\<rparr>]"
proof -
  have a: "(scenario_stemmer :: string \<Rightarrow> unit + string) ''running'' = Inr ''run''"
    and b: "(scenario_stemmer :: string \<Rightarrow> unit + string) ''fast'' = Inr ''fast''"
    and c: "(scenario_stemmer :: string \<Rightarrow> unit + string) ''runnerfast'' = Inr ''runnerfast''"
    by code_simp+
  from scenario_one [OF a b c] show ?thesis
    by blast
qed

text \<open>
  C7, as the specification states it, fails: of the rows "Running fast!", "runner-fast"
  and "  RUNNING FAST  ", the second has the single token "runnerfast" (the hyphen is
  deleted, which joins the two words), so it has a key of its own and keeps its own
  text; and the text the first and the third row get is not the smallest of the three.
\<close>

theorem scenario_one_counterexample:
  "create_normalized_key (scenario_stemmer :: string \<Rightarrow> unit + string)
     [\<lparr>raw_text = ''Running fast!''\<rparr>, \<lparr>raw_text = ''runner-fast''\<rparr>,
      \<lparr>raw_text = ''  RUNNING FAST  ''\<rparr>] =
     Inr [\<lparr>raw_text = ''Running fast!'', key = ''fast run''\<rparr>,
          \<lparr>raw_text = ''runner-fast'', key = ''runnerfast''\<rparr>,
          \<lparr>raw_text = ''  RUNNING FAST  '', key = ''fast run''\<rparr>] \<and>
   map cleaned_text (generate_cleaned_text
     [\<lparr>raw_text = ''Running fast!'', key = ''fast run''\<rparr>,
      \<lparr>raw_text = ''runner-fast'', key = ''runnerfast''\<rparr>,
      \<lparr>raw_text = ''  RUNNING FAST  '', key = ''fast run''\<rparr>]) =
     [Some ''Running fast!'', Some ''runner-fast'', Some ''Running fast!''] \<and>
   tokens ''runner-fast'' = [''runnerfast''] \<and>
   (''  RUNNING FAST  '' :: string) < ''Running fast!''"
  by code_simp

text \<open>
  C8, as the code has it. Where the stemmer raises on a token of a row,
  \<open>create_normalized_key\<close> raises an exception the stemmer raised on a token of a row,
  and \<open>main\<close> ends with it and leaves the files as they were: no key is computed and
  nothing is written. Nothing replaces a token the stemmer raised on.
\<close>

theorem stemmer_failure_propagates:
  assumes "r \<in> set R" and "t \<in> set (tokens (raw_text r))" and "stem t = Inl e"
  shows "\<exists>e'. create_normalized_key stem R = Inl e' \<and>
           main stem R output_file fs = (Some (StemmerError e'), fs) \<and>
           (\<exists>r' \<in> set R. \<exists>t' \<in> set (tokens (raw_text r')). stem t' = Inl e')"
proof -
  from assms(2,3) have "\<exists>e. try_map stem (tokens (raw_text r)) = Inl e"
    unfolding try_map_Inl_iff by blast
  then have "\<exists>e. key_of stem (raw_text r) = Inl e"
    by (auto simp: key_of_def)
  then have "\<exists>e. (case key_of stem (raw_text r) of Inl e \<Rightarrow> Inl e
      | Inr k \<Rightarrow> Inr \<lparr>raw_text = raw_text r, key = k\<rparr>) = Inl e"
    by auto
  with assms(1) have "\<exists>e. create_normalized_key stem R = Inl e"
    unfolding create_normalized_key_rows try_map_Inl_iff by blast
  then obtain e' where e': "create_normalized_key stem R = Inl e'"
    by blast
  then have "main stem R output_file fs = (Some (StemmerError e'), fs)"
    by (simp add: main_cases)
  with e' create_normalized_key_Inl_D [OF e'] show ?thesis
    by blast
qed

theorem stemmer_failure_propagates_witness:
  "\<exists>e'. main raising_stemmer
     [\<lparr>raw_text = ''good text''\<rparr>, \<lparr>raw_text = ''so bad''\<rparr>, \<lparr>raw_text = ''fine''\<rparr>]
     ''files/output.txt'' Map.empty = (Some (StemmerError e'), Map.empty)"
proof -
  let ?R = "[\<lparr>raw_text = ''good text''\<rparr>, \<lparr>raw_text = ''so bad''\<rparr>, \<lparr>raw_text = ''fine''\<rparr>]"
  have r: "\<lparr>raw_text = ''so bad''\<rparr> \<in> set ?R"
    by simp
  have t: "''bad'' \<in> set (tokens (raw_text \<lparr>raw_text = ''so bad''\<rparr>))"
    by code_simp
  have e: "raising_stemmer ''bad'' = Inl ''cannot stem''"
    by code_simp
  from stemmer_failure_propagates [where stem = raising_stemmer and t = "''bad''", OF r t e]
  show ?thesis
    by blast
qed

text \<open>
  C8, as the specification states it, fails: with a stemmer that raises on the word
  "bad", \<open>main\<close> on three rows ends with the stemmer's exception and writes no output
  file, although recovery with the unstemmed token would give every row a key.
\<close>

theorem stemmer_failure_aborts_batch:
  "fst (main raising_stemmer
     [\<lparr>raw_text = ''good text''\<rparr>, \<lparr>raw_text = ''so bad''\<rparr>, \<lparr>raw_text = ''fine''\<rparr>]
     ''files/output.txt'' Map.empty) = Some (StemmerError ''cannot stem'') \<and>
   snd (main raising_stemmer
     [\<lparr>raw_text = ''good text''\<rparr>, \<lparr>raw_text = ''so bad''\<rparr>, \<lparr>raw_text = ''fine''\<rparr>]
     ''files/output.txt'' Map.empty) ''files/output.txt'' = None \<and>
   create_normalized_key raising_stemmer
     [\<lparr>raw_text = ''good text''\<rparr>, \<lparr>raw_text = ''so bad''\<rparr>, \<lparr>raw_text = ''fine''\<rparr>] =
     Inl ''cannot stem'' \<and>
   create_normalized_key (with_fallback raising_stemmer)
     [\<lparr>raw_text = ''good text''\<rparr>, \<lparr>raw_text = ''so bad''\<rparr>, \<lparr>raw_text = ''fine''\<rparr>] =
     Inr [\<lparr>raw_text = ''good text'', key = ''good text''\<rparr>,
          \<lparr>raw_text = ''so bad'', key = ''bad so''\<rparr>,
          \<lparr>raw_text = ''fine'', key = ''fine''\<rparr>]"
  by code_simp

text \<open>
  C9, as the code has it. Where \<open>main\<close> ends without exception, the file at
  \<open>output_file\<close> has exactly the two columns \<open>raw_text\<close> and \<open>cleaned_text\<close> (no
  column \<open>key\<close>) and one record per row of the loaded frame, in row order: the
  \<open>raw_text\<close> of the row as loaded and the \<open>cleaned_text\<close> of the row. Where
  \<open>output_file\<close> is another path than \<open>files/test.csv\<close>, that file holds the whole
  frame, the column \<open>key\<close> with it. No other file changes.
\<close>

theorem persisted_output:
  assumes "main stem R output_file fs = (None, fs')"
  shows "\<exists>df cs.
           create_normalized_key stem R = Inr df \<and>
           map raw_text df = map raw_text R \<and>
           length cs = length R \<and>
           map cleaned_text (generate_cleaned_text df) = map Some cs \<and>
           fs' output_file =
             Some \<lparr>header = [''raw_text'', ''cleaned_text''],
                   records = map2 (\<lambda>r c. [raw_text r, c]) R cs\<rparr> \<and>
           ''key'' \<notin> set [''raw_text'', ''cleaned_text''] \<and>
           (output_file \<noteq> ''files/test.csv'' \<longrightarrow>
              fs' ''files/test.csv'' =
                Some \<lparr>header = [''raw_text'', ''key'', ''cleaned_text''],
                      records = map2 (\<lambda>r c. [raw_text r, key r, c]) df cs\<rparr>) \<and>
           (\<forall>p. p \<noteq> output_file \<and> p \<noteq> ''files/test.csv'' \<longrightarrow> fs' p = fs p)"
proof -
  from assms obtain df where df: "create_normalized_key stem R = Inr df"
    and fs': "fs' = fs(''files/test.csv'' \<mapsto> to_csv (as_frame (generate_cleaned_text df)),
            output_file \<mapsto>
              \<lparr>header = [''raw_text'', ''cleaned_text''],
               records = map (\<lambda>r. [raw_text r, case cleaned_text r of None \<Rightarrow> [] | Some s \<Rightarrow> s])
                 (generate_cleaned_text df)\<rparr>)"
    by (cases "create_normalized_key stem R") (auto simp: main_cases)
  have raw: "map raw_text df = map raw_text R"
    using df by (rule raw_text_create_normalized_key)
  from cleaned_text_Some obtain cs where cs: "length cs = length df"
      "map cleaned_text (generate_cleaned_text df) = map Some cs"
    by blast
  have len: "length cs = length R"
    using cs(1) raw by (metis length_map)
  have two: "map (\<lambda>r. [raw_text r, case cleaned_text r of None \<Rightarrow> [] | Some s \<Rightarrow> s])
        (generate_cleaned_text df) = map2 (\<lambda>r c. [raw_text r, c]) R cs"
    using cs(2) by (rule records_two_columns) (simp add: raw_text_generate_cleaned_text raw)
  have three: "map (\<lambda>r. [raw_text r, key r, case cleaned_text r of None \<Rightarrow> [] | Some s \<Rightarrow> s])
        (generate_cleaned_text df) = map2 (\<lambda>r c. [raw_text r, key r, c]) df cs"
    using cs(2) by (rule records_three_columns)
      (simp_all add: raw_text_generate_cleaned_text key_generate_cleaned_text)
  have out: "fs' output_file =
             Some \<lparr>header = [''raw_text'', ''cleaned_text''],
                   records = map2 (\<lambda>r c. [raw_text r, c]) R cs\<rparr>"
    by (simp add: fs' two)
  have test: "fs' ''files/test.csv'' =
                Some \<lparr>header = [''raw_text'', ''key'', ''cleaned_text''],
                      records = map2 (\<lambda>r c. [raw_text r, key r, c]) df cs\<rparr>"
    if "output_file \<noteq> ''files/test.csv''"
    using that by (simp add: fs' to_csv_as_frame three)
  have rest: "fs' p = fs p" if "p \<noteq> output_file \<and> p \<noteq> ''files/test.csv''" for p
    using that by (simp add: fs')
  have nokey: "''key'' \<notin> set [''raw_text'', ''cleaned_text'']"
    by simp
  from df raw len cs(2) out nokey test rest show ?thesis
    by blast
qed

theorem persisted_output_witness:
  "snd (main (scenario_stemmer :: string \<Rightarrow> unit + string)
     [\<lparr>raw_text = ''apple''\<rparr>, \<lparr>raw_text = ''Apple''\<rparr>, \<lparr>raw_text = ''?? ..''\<rparr>]
     ''files/output.txt'' Map.empty) ''files/output.txt'' =
   Some \<lparr>header = [''raw_text'', ''cleaned_text''],
          records = [[''apple'', ''apple''], [''Apple'', ''apple''], [''?? ..'', ''?? ..'']]\<rparr> \<and>
   (\<exists>df cs.
      create_normalized_key (scenario_stemmer :: string \<Rightarrow> unit + string)
        [\<lparr>raw_text = ''apple''\<rparr>, \<lparr>raw_text = ''Apple''\<rparr>, \<lparr>raw_text = ''?? ..''\<rparr>] = Inr df \<and>
      map cleaned_text (generate_cleaned_text df) = map Some cs \<and>
      snd (main (scenario_stemmer :: string \<Rightarrow> unit + string)
        [\<lparr>raw_text = ''apple''\<rparr>, \<lparr>raw_text = ''Apple''\<rparr>, \<lparr>raw_text = ''?? ..''\<rparr>]
        ''files/output.txt'' Map.empty) ''files/output.txt'' =
      Some \<lparr>header = [''raw_text'', ''cleaned_text''],
             records = map2 (\<lambda>r c. [raw_text r, c])
               [\<lparr>raw_text = ''apple''\<rparr>, \<lparr>raw_text = ''Apple''\<rparr>, \<lparr>raw_text = ''?? ..''\<rparr>] cs\<rparr> \<and>
      snd (main (scenario_stemmer :: string \<Rightarrow> unit + string)
        [\<lparr>raw_text = ''apple''\<rparr>, \<lparr>raw_text = ''Apple''\<rparr>, \<lparr>raw_text = ''?? ..''\<rparr>]
        ''files/output.txt'' Map.empty) ''files/test.csv'' =
      Some \<lparr>header = [''raw_text'', ''key'', ''cleaned_text''],
             records = map2 (\<lambda>r c. [raw_text r, key r, c]) df cs\<rparr>)"
proof -
  let ?R = "[\<lparr>raw_text = ''apple''\<rparr>, \<lparr>raw_text = ''Apple''\<rparr>, \<lparr>raw_text = ''?? ..''\<rparr>]"
  let ?m = "main (scenario_stemmer :: string \<Rightarrow> unit + string) ?R ''files/output.txt'' Map.empty"
  have "fst ?m = None"
    by code_simp
  then have h: "?m = (None, snd ?m)"
    by (simp add: prod_eq_iff)
  have p: "''files/output.txt'' \<noteq> ''files/test.csv''"
    by simp
  have a: "snd ?m ''files/output.txt'' =
   Some \<lparr>header = [''raw_text'', ''cleaned_text''],
          records = [[''apple'', ''apple''], [''Apple'', ''apple''], [''?? ..'', ''?? ..'']]\<rparr>"
    by code_simp
  from persisted_output [OF h] p
  have "\<exists>df cs.
      create_normalized_key (scenario_stemmer :: string \<Rightarrow> unit + string) ?R = Inr df \<and>
      map cleaned_text (generate_cleaned_text df) = map Some cs \<and>
      snd ?m ''files/output.txt'' =
      Some \<lparr>header = [''raw_text'', ''cleaned_text''],
             records = map2 (\<lambda>r c. [raw_text r, c]) ?R cs\<rparr> \<and>
      snd ?m ''files/test.csv'' =
      Some \<lparr>header = [''raw_text'', ''key'', ''cleaned_text''],
             records = map2 (\<lambda>r c. [raw_text r, key r, c]) df cs\<rparr>"
    by blast
  with a show ?thesis
    by (intro conjI)
qed

text \<open>
  C9, as the specification states it, fails: \<open>main\<close> ends without exception and
  has written the column \<open>key\<close>, with the keys of the rows, to \<open>files/test.csv\<close>
  (line 124).
\<close>

theorem key_is_persisted:
  "fst (main (scenario_stemmer :: string \<Rightarrow> unit + string)
     [\<lparr>raw_text = ''apple''\<rparr>, \<lparr>raw_text = ''Apple''\<rparr>, \<lparr>raw_text = ''?? ..''\<rparr>]
     ''files/output.txt'' Map.empty) = None \<and>
   snd (main (scenario_stemmer :: string \<Rightarrow> unit + string)
     [\<lparr>raw_text = ''apple''\<rparr>, \<lparr>raw_text = ''Apple''\<rparr>, \<lparr>raw_text = ''?? ..''\<rparr>]
     ''files/output.txt'' Map.empty) ''files/test.csv'' =
   Some \<lparr>header = [''raw_text'', ''key'', ''cleaned_text''],
          records = [[''apple'', ''appl'', ''apple''], [''Apple'', ''appl'', ''apple''],
                     [''?? ..'', '''', ''?? ..'']]\<rparr> \<and>
   ''key'' \<in> set [''raw_text'', ''key'', ''cleaned_text'']"
  by code_simp

text \<open>
  C10. The representative \<open>generate_cleaned_text\<close> assigns to a key is the
  \<open>raw_text\<close> of the first row, in the row order of its argument, that has this key:
  every row's \<open>cleaned_text\<close> is the \<open>raw_text\<close> of the first row with the row's
  key. The sorted copy of line 76 does not reach the result.
\<close>

theorem representative_is_first_row_with_key:
  "key_dict df k = map_option raw_text (find (\<lambda>r. key r = k) df) \<and>
   generate_cleaned_text df =
   map (\<lambda>r. \<lparr>raw_text = raw_text r, key = key r,
         cleaned_text = map_option raw_text (find (\<lambda>r'. key r' = key r) df)\<rparr>) df"
proof
  show "key_dict df k = map_option raw_text (find (\<lambda>r. key r = k) df)"
    by (rule key_dict_find)
  show "generate_cleaned_text df =
   map (\<lambda>r. \<lparr>raw_text = raw_text r, key = key r,
         cleaned_text = map_option raw_text (find (\<lambda>r'. key r' = key r) df)\<rparr>) df"
    unfolding generate_cleaned_text_def by (simp add: key_dict_find)
qed

end
